theory Spec2Isabelle
  imports Complex_Main "HOL-Library.Sublist"
begin

section \<open>Python values used by the evaluation pipeline\<close>

text \<open>
  The exceptions the modelled code can raise. \<open>IndexError\<close> comes from indexing a
  sequence out of range, \<open>ValueError\<close> carries its message, and \<open>OSError\<close> stands for
  a failure of an external loader.
\<close>

datatype py_error = IndexError | ValueError string | OSError string

text \<open>
  A slice \<open>xs[start:stop]\<close> with non-negative bounds: the elements at the positions
  \<open>start \<le> i < min stop (len xs)\<close>. Slicing never raises.
\<close>

definition py_slice :: "'a list \<Rightarrow> nat \<Rightarrow> nat \<Rightarrow> 'a list" where
  "py_slice xs start stop = drop start (take stop xs)"

text \<open>
  The numpy results that appear in a region record. Loss values are read as real
  numbers; \<open>NaN\<close> is what \<open>np.mean\<close> and \<open>np.median\<close> return for an empty input
  (with a warning, not an exception).
\<close>

datatype npfloat = NaN | Float real

definition np_mean :: "real list \<Rightarrow> npfloat" where
  "np_mean xs = (if xs = [] then NaN else Float (sum_list xs / real (length xs)))"

definition np_median :: "real list \<Rightarrow> npfloat" where
  "np_median xs =
     (if xs = [] then NaN
      else let ys = sort xs; n = length ys in
        if even n then Float ((ys ! (n div 2 - 1) + ys ! (n div 2)) / 2)
        else Float (ys ! (n div 2)))"

section \<open>The region segmenter\<close>

definition REGIONS :: "string list" where
  "REGIONS = [''FR1'', ''CDR1'', ''FR2'', ''CDR2'', ''FR3'', ''CDR3'', ''FR4'']"

text \<open>
  The loop \<open>for i, char in enumerate(cdr_mask)\<close> of \<open>_region_processing\<close>. The
  arguments are the rest of the mask, the index \<open>i\<close> of its first element, and the
  loop's variables \<open>prev_char\<close>, \<open>start_idx\<close> and \<open>mask_segments\<close>; the result is
  the value of \<open>mask_segments\<close> and \<open>start_idx\<close> after the loop.
\<close>

fun scan_mask ::
  "'a list \<Rightarrow> nat \<Rightarrow> 'a \<Rightarrow> nat \<Rightarrow> (nat \<times> nat) list \<Rightarrow> (nat \<times> nat) list \<times> nat" where
  "scan_mask [] i prev_char start_idx segs = (segs, start_idx)"
| "scan_mask (char # rest) i prev_char start_idx segs =
     (if char \<noteq> prev_char
      then scan_mask rest (Suc i) char i (segs @ [(start_idx, i)])
      else scan_mask rest (Suc i) char start_idx segs)"

text \<open>
  Lines 59 to 68: \<open>prev_char = cdr_mask[0]\<close> raises \<open>IndexError\<close> on an empty mask;
  otherwise the scan runs and the final region is closed at \<open>len(cdr_mask)\<close>.
\<close>

definition mask_segments :: "'a list \<Rightarrow> py_error + (nat \<times> nat) list" where
  "mask_segments cdr_mask =
     (case cdr_mask of
        [] \<Rightarrow> Inl IndexError
      | c0 # _ \<Rightarrow>
          (case scan_mask cdr_mask 0 c0 0 [] of
             (segs, start_idx) \<Rightarrow> Inr (segs @ [(start_idx, length cdr_mask)])))"

text \<open>
  A list of half-open ranges that tile \<open>[lo, hi)\<close>: the first starts at \<open>lo\<close>, each
  one is non-empty and ends where the next starts, and the last ends at \<open>hi\<close>.
\<close>

fun tiles :: "nat \<Rightarrow> nat \<Rightarrow> (nat \<times> nat) list \<Rightarrow> bool" where
  "tiles lo hi [] = (lo = hi)"
| "tiles lo hi ((s, e) # rest) = (s = lo \<and> s < e \<and> tiles e hi rest)"

section \<open>Result rows and the chain splitter\<close>

text \<open>
  One row of the concatenated result table, with the columns that \<open>_extract\<close> and
  \<open>_region_processing\<close> read. Masks and predictions are sequences of characters,
  one per position.
\<close>

record row =
  sequence :: string
  separator :: string
  loss :: "real list"
  prediction :: string
  cdr_mask_heavy :: string
  cdr_mask_light :: string
  v_mutation_count_aa_heavy :: int
  v_mutation_count_aa_light :: int
  model :: string

text \<open>The six columns that \<open>_extract\<close> adds to every row.\<close>

record derived_row = row +
  heavy_loss :: "real list"
  light_loss :: "real list"
  heavy_pred :: string
  light_pred :: string
  heavy_sequence :: string
  light_sequence :: string

text \<open>
  Python's \<open>s.split(sep)\<close> for a string separator: the string is scanned from the
  left, every leftmost occurrence of \<open>sep\<close> ends the current part and the scan
  continues behind it. \<open>acc\<close> is the part read so far. An empty separator raises
  \<open>ValueError\<close>.
\<close>

function split_from :: "string \<Rightarrow> string \<Rightarrow> string \<Rightarrow> string list" where
  "split_from sep acc [] = [acc]"
| "split_from sep acc (c # cs) =
     (if sep \<noteq> [] \<and> prefix sep (c # cs)
      then acc # split_from sep [] (drop (length sep) (c # cs))
      else split_from sep (acc @ [c]) cs)"
  by pat_completeness auto
termination
  by (relation "measure (\<lambda>(sep, acc, s). length s)") auto

definition py_split :: "string \<Rightarrow> string \<Rightarrow> py_error + string list" where
  "py_split s sep =
     (if sep = [] then Inl (ValueError ''empty separator'') else Inr (split_from sep [] s))"

text \<open>
  The body of the loop of \<open>_extract\<close> for one row (lines 23 to 32). The four slices
  cannot fail. \<open>r["sequence"].split(sep)[0]\<close> fails only when \<open>split\<close> does;
  \<open>r["sequence"].split(sep)[1]\<close> raises \<open>IndexError\<close> when the split has one part.
\<close>

definition extract_row :: "row \<Rightarrow> py_error + derived_row" where
  "extract_row r =
     (let hlen = length (cdr_mask_heavy r);
          sep = separator r;
          seplen = count_list sep CHR ''<'';
          h_loss = take hlen (loss r);
          l_loss = drop (hlen + seplen) (loss r);
          h_pred = take hlen (prediction r);
          l_pred = drop (hlen + seplen) (prediction r)
      in case py_split (sequence r) sep of
           Inl err \<Rightarrow> Inl err
         | Inr [] \<Rightarrow> Inl IndexError
         | Inr [h_seq] \<Rightarrow> Inl IndexError
         | Inr (h_seq # l_seq # _) \<Rightarrow>
             Inr \<lparr>sequence = sequence r, separator = separator r, loss = loss r,
                  prediction = prediction r, cdr_mask_heavy = cdr_mask_heavy r,
                  cdr_mask_light = cdr_mask_light r,
                  v_mutation_count_aa_heavy = v_mutation_count_aa_heavy r,
                  v_mutation_count_aa_light = v_mutation_count_aa_light r,
                  model = model r,
                  heavy_loss = h_loss, light_loss = l_loss,
                  heavy_pred = h_pred, light_pred = l_pred,
                  heavy_sequence = h_seq, light_sequence = l_seq\<rparr>)"

text \<open>
  \<open>_extract\<close> on the whole table: the rows are processed in order and the first
  exception ends the call, so no table is returned.
\<close>

fun extract_rows :: "row list \<Rightarrow> py_error + derived_row list" where
  "extract_rows [] = Inr []"
| "extract_rows (r # rs) =
     (case extract_row r of
        Inl err \<Rightarrow> Inl err
      | Inr d \<Rightarrow> (case extract_rows rs of Inl err \<Rightarrow> Inl err | Inr ds \<Rightarrow> Inr (d # ds)))"

section \<open>The region aggregator\<close>

text \<open>
  The dictionary appended to \<open>data\<close> for one region. The fields carry the prefix
  \<open>rec_\<close> because \<open>loss\<close> and \<open>model\<close> are columns of a row already.
\<close>

record region_record =
  rec_region :: string
  rec_model :: string
  rec_chain :: string
  rec_mutated :: bool
  rec_loss :: "real list"
  rec_mean_loss :: npfloat
  rec_median_loss :: npfloat
  rec_accuracy :: npfloat

text \<open>The two values of the loop variable \<open>chain\<close> and the columns they select.\<close>

datatype chain = Heavy | Light

fun chain_name :: "chain \<Rightarrow> string" where
  "chain_name Heavy = ''heavy''"
| "chain_name Light = ''light''"

fun chain_loss :: "derived_row \<Rightarrow> chain \<Rightarrow> real list" where
  "chain_loss r Heavy = heavy_loss r"
| "chain_loss r Light = light_loss r"

fun chain_pred :: "derived_row \<Rightarrow> chain \<Rightarrow> string" where
  "chain_pred r Heavy = heavy_pred r"
| "chain_pred r Light = light_pred r"

fun chain_sequence :: "derived_row \<Rightarrow> chain \<Rightarrow> string" where
  "chain_sequence r Heavy = heavy_sequence r"
| "chain_sequence r Light = light_sequence r"

fun cdr_mask_of :: "derived_row \<Rightarrow> chain \<Rightarrow> string" where
  "cdr_mask_of r Heavy = cdr_mask_heavy r"
| "cdr_mask_of r Light = cdr_mask_light r"

text \<open>
  \<open>np.mean([p == t for p, t in zip(region_pred, region_seq)])\<close>: the mean of the
  comparison results, \<open>True\<close> counting as 1 and \<open>False\<close> as 0.
\<close>

definition accuracy :: "string \<Rightarrow> string \<Rightarrow> npfloat" where
  "accuracy region_pred region_seq =
     np_mean (map (\<lambda>(p, t). if p = t then 1 else 0) (zip region_pred region_seq))"

text \<open>The record built in lines 76 to 93 for one region and its range.\<close>

definition region_entry ::
  "derived_row \<Rightarrow> chain \<Rightarrow> string \<times> (nat \<times> nat) \<Rightarrow> region_record" where
  "region_entry r c = (\<lambda>(region, (start, stop)).
     (let region_loss = py_slice (chain_loss r c) start stop;
          region_pred = py_slice (chain_pred r c) start stop;
          region_seq = py_slice (chain_sequence r c) start stop
      in \<lparr>rec_region = region,
          rec_model = model r,
          rec_chain = chain_name c,
          rec_mutated = (v_mutation_count_aa_heavy r \<noteq> 0 \<or> v_mutation_count_aa_light r \<noteq> 0),
          rec_loss = region_loss,
          rec_mean_loss = np_mean region_loss,
          rec_median_loss = np_median region_loss,
          rec_accuracy = accuracy region_pred region_seq\<rparr>))"

text \<open>
  The body of the loop over \<open>chain\<close> (lines 53 to 93): the records appended to
  \<open>data\<close> for one chain of one row. A chain whose mask does not give
  \<open>len(REGIONS)\<close> segments is skipped by \<open>continue\<close>.
\<close>

definition chain_records :: "derived_row \<Rightarrow> chain \<Rightarrow> py_error + region_record list" where
  "chain_records r c =
     (case mask_segments (cdr_mask_of r c) of
        Inl err \<Rightarrow> Inl err
      | Inr segs \<Rightarrow>
          if length segs \<noteq> length REGIONS then Inr []
          else Inr (map (region_entry r c) (zip REGIONS segs)))"

text \<open>
  \<open>_region_processing\<close>: every row, heavy chain first and then light chain; an
  exception in any chain ends the call and \<open>data\<close> is not returned.
\<close>

fun region_processing :: "derived_row list \<Rightarrow> py_error + region_record list" where
  "region_processing [] = Inr []"
| "region_processing (r # rs) =
     (case chain_records r Heavy of
        Inl err \<Rightarrow> Inl err
      | Inr hs \<Rightarrow>
          (case chain_records r Light of
             Inl err \<Rightarrow> Inl err
           | Inr ls \<Rightarrow>
               (case region_processing rs of
                  Inl err \<Rightarrow> Inl err
                | Inr others \<Rightarrow> Inr (hs @ ls @ others))))"

section \<open>The model and tokenizer loader\<close>

text \<open>
  \<open>tokenizer_path or model_path\<close>: the tokenizer path unless it is \<open>None\<close> or the
  empty string.
\<close>

definition path_or :: "string option \<Rightarrow> string \<Rightarrow> string" where
  "path_or tokenizer_path model_path =
     (case tokenizer_path of
        None \<Rightarrow> model_path
      | Some p \<Rightarrow> if p = [] then model_path else p)"

text \<open>
  \<open>load_model_and_tokenizer\<close>. The three \<open>from_pretrained\<close> functions belong to an
  external library and are parameters here; each returns what it loaded or the
  exception it raised. The tokenizer is loaded before the task is looked at.
\<close>

definition load_model_and_tokenizer ::
  "(string \<Rightarrow> py_error + 'tok) \<Rightarrow> (string \<Rightarrow> 'kw \<Rightarrow> py_error + 'mdl) \<Rightarrow>
   (string \<Rightarrow> 'kw \<Rightarrow> py_error + 'mdl) \<Rightarrow>
   string \<Rightarrow> string \<Rightarrow> string option \<Rightarrow> 'kw \<Rightarrow> py_error + ('mdl \<times> 'tok)" where
  "load_model_and_tokenizer tokenizer_from_pretrained mlm_from_pretrained
       classification_from_pretrained model_path task tokenizer_path kwargs =
     (case tokenizer_from_pretrained (path_or tokenizer_path model_path) of
        Inl err \<Rightarrow> Inl err
      | Inr tokenizer \<Rightarrow>
          if task = ''mlm'' then
            (case mlm_from_pretrained model_path kwargs of
               Inl err \<Rightarrow> Inl err
             | Inr mdl \<Rightarrow> Inr (mdl, tokenizer))
          else if task = ''classification'' then
            (case classification_from_pretrained model_path kwargs of
               Inl err \<Rightarrow> Inl err
             | Inr mdl \<Rightarrow> Inr (mdl, tokenizer))
          else Inl (ValueError (''Unsupported task: '' @ task)))"

section \<open>Example rows\<close>

text \<open>
  A row with a heavy chain of 10 residues, the separator \<open><cls>\<close> and a light chain
  of 14 residues, so that \<open>loss\<close> and \<open>prediction\<close> have 25 entries; both masks have
  7 runs.
\<close>

definition example_row :: row where
  "example_row =
     \<lparr>sequence = ''QVQLVESGGG<cls>DIQMTQSPSSLSAS'', separator = ''<cls>'',
      loss = [0.5, 1, 1.5, 2, 2.5, 3, 3.5, 4, 4.5, 5, 9, 1, 2, 3, 4, 5, 6, 7, 8, 7, 6, 5, 4, 3, 2],
      prediction = ''QVQLVESGGA-DIQMTQSPSSLSAT'',
      cdr_mask_heavy = ''0011223456'', cdr_mask_light = ''00112233445566'',
      v_mutation_count_aa_heavy = 3, v_mutation_count_aa_light = 0,
      model = ''model_a''\<rparr>"

text \<open>The same row with the six columns that \<open>_extract\<close> adds.\<close>

definition example_derived :: derived_row where
  "example_derived =
     \<lparr>sequence = ''QVQLVESGGG<cls>DIQMTQSPSSLSAS'', separator = ''<cls>'',
      loss = [0.5, 1, 1.5, 2, 2.5, 3, 3.5, 4, 4.5, 5, 9, 1, 2, 3, 4, 5, 6, 7, 8, 7, 6, 5, 4, 3, 2],
      prediction = ''QVQLVESGGA-DIQMTQSPSSLSAT'',
      cdr_mask_heavy = ''0011223456'', cdr_mask_light = ''00112233445566'',
      v_mutation_count_aa_heavy = 3, v_mutation_count_aa_light = 0,
      model = ''model_a'',
      heavy_loss = [0.5, 1, 1.5, 2, 2.5, 3, 3.5, 4, 4.5, 5],
      light_loss = [1, 2, 3, 4, 5, 6, 7, 8, 7, 6, 5, 4, 3, 2],
      heavy_pred = ''QVQLVESGGA'', light_pred = ''DIQMTQSPSSLSAT'',
      heavy_sequence = ''QVQLVESGGG'', light_sequence = ''DIQMTQSPSSLSAS''\<rparr>"


text \<open>A row whose \<open>loss\<close> and \<open>prediction\<close> end with the heavy chain.\<close>

definition short_row :: row where
  "short_row =
     \<lparr>sequence = ''QVQLVES<cls>DIQ'', separator = ''<cls>'',
      loss = [1, 2, 3, 4, 5, 6, 7], prediction = ''QVQLVES-'',
      cdr_mask_heavy = ''0123456'', cdr_mask_light = ''012'',
      v_mutation_count_aa_heavy = 0, v_mutation_count_aa_light = 0,
      model = ''model_a''\<rparr>"

text \<open>A row whose sequence has no separator, and one where it occurs twice.\<close>

definition unseparated_row :: row where
  "unseparated_row =
     \<lparr>sequence = ''QVQLVESDIQMTQS'', separator = ''<cls>'',
      loss = [1, 2, 3, 4, 5, 6, 7, 1, 2, 3, 4, 5, 6, 7], prediction = ''QVQLVESDIQMTQS'',
      cdr_mask_heavy = ''0123456'', cdr_mask_light = ''0123456'',
      v_mutation_count_aa_heavy = 0, v_mutation_count_aa_light = 0,
      model = ''model_a''\<rparr>"

definition repeated_row :: row where
  "repeated_row =
     \<lparr>sequence = ''QVQ<cls>DIQ<cls>EVK'', separator = ''<cls>'',
      loss = [1, 2, 3, 4, 5, 6, 7, 8, 9, 10, 11], prediction = ''QVQ-DIQ-EVK'',
      cdr_mask_heavy = ''012'', cdr_mask_light = ''012'',
      v_mutation_count_aa_heavy = 0, v_mutation_count_aa_light = 0,
      model = ''model_a''\<rparr>"

text \<open>A row without a light chain: the light-chain mask is the empty string.\<close>

definition empty_light_row :: row where
  "empty_light_row =
     \<lparr>sequence = ''QVQLVESGGG<cls>'', separator = ''<cls>'',
      loss = [0.5, 1, 1.5, 2, 2.5, 3, 3.5, 4, 4.5, 5, 9],
      prediction = ''QVQLVESGGA-'',
      cdr_mask_heavy = ''0011223456'', cdr_mask_light = [],
      v_mutation_count_aa_heavy = 0, v_mutation_count_aa_light = 0,
      model = ''model_a''\<rparr>"

section \<open>Properties of the segmenter\<close>

lemma tiles_append:
  "tiles lo mid xs \<Longrightarrow> tiles mid hi ys \<Longrightarrow> tiles lo hi (xs @ ys)"
  by (induction xs arbitrary: lo) auto

lemma tiles_le: "tiles lo hi segs \<Longrightarrow> lo \<le> hi"
proof (induction segs arbitrary: lo)
  case Nil
  then show ?case by simp
next
  case (Cons p segs)
  obtain s e where p: "p = (s, e)" by (cases p)
  with Cons.prems have "s = lo" "s < e" "tiles e hi segs" by auto
  with Cons.IH [of e] show ?case by simp
qed

lemma tiles_nonempty: "tiles lo hi segs \<Longrightarrow> (s, e) \<in> set segs \<Longrightarrow> s < e \<and> lo \<le> s \<and> e \<le> hi"
proof (induction segs arbitrary: lo)
  case Nil
  then show ?case by simp
next
  case (Cons p segs)
  obtain a b where p: "p = (a, b)" by (cases p)
  with Cons.prems have ab: "a = lo" "a < b" "tiles b hi segs" by auto
  show ?case
  proof (cases "(s, e) = p")
    case True
    with p ab tiles_le [of b hi segs] show ?thesis by auto
  next
    case False
    with Cons.prems have "(s, e) \<in> set segs" by auto
    with Cons.IH [OF ab(3)] ab show ?thesis by auto
  qed
qed

lemma tiles_sorted: "tiles lo hi segs \<Longrightarrow> sorted_wrt (\<lambda>a b. snd a \<le> fst b) segs"
proof (induction segs arbitrary: lo)
  case Nil
  then show ?case by simp
next
  case (Cons p segs)
  obtain a b where p: "p = (a, b)" by (cases p)
  with Cons.prems have ab: "a = lo" "a < b" "tiles b hi segs" by auto
  have "\<forall>q\<in>set segs. b \<le> fst q"
  proof
    fix q assume q: "q \<in> set segs"
    obtain s e where "q = (s, e)" by (cases q)
    with q tiles_nonempty [OF ab(3), of s e] show "b \<le> fst q" by simp
  qed
  with Cons.IH [OF ab(3)] p show ?case by simp
qed

lemma tiles_union: "tiles lo hi segs \<Longrightarrow> (\<Union>(s, e)\<in>set segs. {s..<e}) = {lo..<hi}"
proof (induction segs arbitrary: lo)
  case Nil
  then show ?case by simp
next
  case (Cons p segs)
  obtain a b where p: "p = (a, b)" by (cases p)
  with Cons.prems have ab: "a = lo" "a < b" "tiles b hi segs" by auto
  from tiles_le [OF ab(3)] have "b \<le> hi" .
  with ab have "{lo..<b} \<union> {b..<hi} = {lo..<hi}" by auto
  with Cons.IH [OF ab(3)] p ab show ?case by simp
qed

lemma scan_mask_tiles:
  "tiles lo start_idx segs \<Longrightarrow> start_idx < i \<Longrightarrow> scan_mask cs i prev start_idx segs = (segs', st) \<Longrightarrow>
   tiles lo (i + length cs) (segs' @ [(st, i + length cs)])"
proof (induction cs arbitrary: i prev start_idx segs)
  case Nil
  then show ?case by (simp add: tiles_append)
next
  case (Cons c cs)
  show ?case
  proof (cases "c \<noteq> prev")
    case True
    with Cons.prems have sc: "scan_mask cs (Suc i) c i (segs @ [(start_idx, i)]) = (segs', st)"
      by simp
    from Cons.prems have "tiles lo i (segs @ [(start_idx, i)])"
      by (simp add: tiles_append)
    from Cons.IH [OF this _ sc] show ?thesis by simp
  next
    case False
    with Cons.prems have sc: "scan_mask cs (Suc i) c start_idx segs = (segs', st)"
      by simp
    from Cons.prems have "start_idx < Suc i" by simp
    from Cons.IH [OF Cons.prems(1) this sc] show ?thesis by simp
  qed
qed

lemma scan_mask_length:
  "scan_mask cs i prev start_idx segs = (segs', st) \<Longrightarrow>
   Suc (length segs') = length segs + length (remdups_adj (prev # cs))"
proof (induction cs arbitrary: i prev start_idx segs)
  case Nil
  then show ?case by simp
next
  case (Cons c cs)
  show ?case
  proof (cases "c \<noteq> prev")
    case True
    with Cons.prems have "scan_mask cs (Suc i) c i (segs @ [(start_idx, i)]) = (segs', st)"
      by simp
    from Cons.IH [OF this] True show ?thesis by simp
  next
    case False
    with Cons.prems have "scan_mask cs (Suc i) c start_idx segs = (segs', st)"
      by simp
    from Cons.IH [OF this] False show ?thesis by simp
  qed
qed

lemma mask_segments_nonempty:
  assumes "cdr_mask \<noteq> []"
  shows "\<exists>segs. mask_segments cdr_mask = Inr segs
           \<and> length segs = length (remdups_adj cdr_mask)
           \<and> tiles 0 (length cdr_mask) segs"
proof -
  from assms obtain c0 rest where m: "cdr_mask = c0 # rest" by (cases cdr_mask) auto
  obtain segs' st where sc: "scan_mask rest (Suc 0) c0 0 [] = (segs', st)"
    by (cases "scan_mask rest (Suc 0) c0 0 []")
  have ms: "mask_segments cdr_mask = Inr (segs' @ [(st, length cdr_mask)])"
    using m sc by (simp add: mask_segments_def)
  have "tiles 0 (Suc 0 + length rest) (segs' @ [(st, Suc 0 + length rest)])"
    by (rule scan_mask_tiles [OF _ _ sc]) simp_all
  with m have t: "tiles 0 (length cdr_mask) (segs' @ [(st, length cdr_mask)])" by simp
  from scan_mask_length [OF sc] m
  have "length (segs' @ [(st, length cdr_mask)]) = length (remdups_adj cdr_mask)" by simp
  with ms t show ?thesis by blast
qed

text \<open>
  Claim C1. A non-empty mask made of exactly 7 maximal runs of equal adjacent labels
  (\<open>remdups_adj\<close> keeps one label per run) is cut by the segmenter into exactly 7
  half-open ranges; every range is non-empty, each range ends no later than any later
  range starts (ascending order, pairwise non-overlapping), and together the ranges
  cover exactly the indices \<open>0 \<le> i < len(cdr_mask)\<close>.
\<close>

theorem segmenter_seven_runs:
  assumes "cdr_mask \<noteq> []" and "length (remdups_adj cdr_mask) = 7"
  shows "\<exists>segs. mask_segments cdr_mask = Inr segs
           \<and> length segs = 7
           \<and> (\<forall>(s, e)\<in>set segs. s < e)
           \<and> sorted_wrt (\<lambda>a b. snd a \<le> fst b) segs
           \<and> (\<Union>(s, e)\<in>set segs. {s..<e}) = {0..<length cdr_mask}"
proof -
  from mask_segments_nonempty [OF assms(1)] assms(2)
  obtain segs where ms: "mask_segments cdr_mask = Inr segs"
    and len: "length segs = 7" and t: "tiles 0 (length cdr_mask) segs" by auto
  have "\<forall>(s, e)\<in>set segs. s < e"
    using tiles_nonempty [OF t] by auto
  with ms len tiles_sorted [OF t] tiles_union [OF t] show ?thesis by blast
qed

theorem segmenter_seven_runs_witness:
  "''AABBBCDDEEFGG'' \<noteq> [] \<and> length (remdups_adj ''AABBBCDDEEFGG'') = 7
   \<and> mask_segments ''AABBBCDDEEFGG'' =
       Inr [(0, 2), (2, 5), (5, 6), (6, 8), (8, 10), (10, 11), (11, 13)]
   \<and> (\<exists>segs. mask_segments ''AABBBCDDEEFGG'' = Inr segs
           \<and> length segs = 7
           \<and> (\<forall>(s, e)\<in>set segs. s < e)
           \<and> sorted_wrt (\<lambda>a b. snd a \<le> fst b) segs
           \<and> (\<Union>(s, e)\<in>set segs. {s..<e}) = {0..<length ''AABBBCDDEEFGG''})"
proof -
  have h1: "''AABBBCDDEEFGG'' \<noteq> []" by simp
  have h2: "length (remdups_adj ''AABBBCDDEEFGG'') = 7" by simp
  have h3: "mask_segments ''AABBBCDDEEFGG'' =
       Inr [(0, 2), (2, 5), (5, 6), (6, 8), (8, 10), (10, 11), (11, 13)]"
    by (simp add: mask_segments_def)
  from segmenter_seven_runs [OF h1 h2] h1 h2 h3 show ?thesis by blast
qed

section \<open>Properties of the chain splitter\<close>

lemma split_from_not_Nil: "split_from sep acc s \<noteq> []"
  by (induction sep acc s rule: split_from.induct) auto

lemma split_from_absent:
  "\<not> sublist sep s \<Longrightarrow> split_from sep acc s = [acc @ s]"
proof (induction s arbitrary: acc)
  case Nil
  then show ?case by simp
next
  case (Cons c cs)
  from Cons.prems have np: "\<not> prefix sep (c # cs)" and ns: "\<not> sublist sep cs"
    by (auto simp: sublist_Cons_right)
  from Cons.IH [OF ns, of "acc @ [c]"] np show ?case by simp
qed

lemma split_from_present:
  "sep \<noteq> [] \<Longrightarrow> sublist sep s \<Longrightarrow> 2 \<le> length (split_from sep acc s)"
proof (induction s arbitrary: acc)
  case Nil
  then show ?case by simp
next
  case (Cons c cs)
  show ?case
  proof (cases "prefix sep (c # cs)")
    case True
    have "split_from sep [] (drop (length sep) (c # cs)) \<noteq> []"
      by (rule split_from_not_Nil)
    then have "1 \<le> length (split_from sep [] (drop (length sep) (c # cs)))"
      by (cases "split_from sep [] (drop (length sep) (c # cs))") auto
    with True Cons.prems(1) show ?thesis by simp
  next
    case False
    with Cons.prems have "sublist sep cs" by (simp add: sublist_Cons_right)
    from Cons.IH [OF Cons.prems(1) this, of "acc @ [c]"] False show ?thesis by simp
  qed
qed

lemma split_from_first:
  "sep \<noteq> [] \<Longrightarrow> \<not> sublist sep (h @ butlast sep) \<Longrightarrow>
   split_from sep acc (h @ sep @ rest) = (acc @ h) # split_from sep [] rest"
proof (induction h arbitrary: acc)
  case Nil
  then obtain x xs where sep: "sep = x # xs" by (cases sep) auto
  have "prefix sep (x # xs @ rest)" by (simp add: sep)
  moreover have "drop (length sep) (x # xs @ rest) = rest" by (simp add: sep)
  ultimately have "split_from sep acc (x # xs @ rest) = acc # split_from sep [] rest"
    using Nil.prems(1) by simp
  then show ?case by (simp add: sep)
next
  case (Cons a h)
  have np: "\<not> prefix sep (a # h @ sep @ rest)"
  proof
    assume p: "prefix sep (a # h @ sep @ rest)"
    have q: "prefix ((a # h) @ butlast sep) (a # h @ sep @ rest)"
      using Cons.prems(1) by (simp add: prefix_def) (metis append_butlast_last_id append_assoc)
    have "length sep \<le> length ((a # h) @ butlast sep)"
      using Cons.prems(1) by (cases sep) auto
    with p q have "prefix sep ((a # h) @ butlast sep)"
      using prefix_length_prefix by blast
    with Cons.prems(2) show False by auto
  qed
  from Cons.prems(2) have "\<not> sublist sep (h @ butlast sep)"
    by (simp add: sublist_Cons_right)
  from Cons.IH [OF Cons.prems(1) this, of "acc @ [a]"] np show ?case by simp
qed

lemma extract_row_split:
  assumes "separator r \<noteq> []"
    and "split_from (separator r) [] (sequence r) = h # l # tl2"
  shows "extract_row r =
     Inr \<lparr>sequence = sequence r, separator = separator r, loss = loss r,
          prediction = prediction r, cdr_mask_heavy = cdr_mask_heavy r,
          cdr_mask_light = cdr_mask_light r,
          v_mutation_count_aa_heavy = v_mutation_count_aa_heavy r,
          v_mutation_count_aa_light = v_mutation_count_aa_light r,
          model = model r,
          heavy_loss = take (length (cdr_mask_heavy r)) (loss r),
          light_loss = drop (length (cdr_mask_heavy r) + count_list (separator r) CHR ''<'') (loss r),
          heavy_pred = take (length (cdr_mask_heavy r)) (prediction r),
          light_pred = drop (length (cdr_mask_heavy r) + count_list (separator r) CHR ''<'') (prediction r),
          heavy_sequence = h, light_sequence = l\<rparr>"
  using assms by (simp add: extract_row_def py_split_def Let_def)

lemma extract_row_absent:
  assumes "\<not> sublist (separator r) (sequence r)"
  shows "extract_row r = Inl IndexError"
proof -
  from assms have "separator r \<noteq> []" by auto
  with split_from_absent [OF assms, of "[]"] show ?thesis
    by (simp add: extract_row_def py_split_def Let_def)
qed

lemma extract_rows_abort:
  "r \<in> set rows \<Longrightarrow> extract_row r = Inl err \<Longrightarrow> \<exists>err'. extract_rows rows = Inl err'"
  by (induction rows) (auto split: sum.splits)

lemma extract_rows_first_error:
  "extract_rows pre = Inr ds \<Longrightarrow> extract_row r = Inl err \<Longrightarrow> extract_rows (pre @ r # post) = Inl err"
  by (induction pre arbitrary: ds) (auto split: sum.splits)

lemma extract_example_row: "extract_row example_row = Inr example_derived"
  by (simp add: extract_row_def py_split_def example_row_def example_derived_def)

text \<open>
  Claim C4. For a row whose sequence is a heavy part, the separator and a light
  part (the separator is not empty, first occurs behind the heavy part and does not
  occur in the light part), the splitter returns a row in which, with \<open>hlen\<close> the
  length of \<open>cdr_mask_heavy\<close> and \<open>seplen\<close> the number of \<open><\<close> in the separator,
  the heavy loss and prediction are the slices \<open>[0:hlen)\<close>, the light loss and
  prediction are the slices \<open>[hlen+seplen:)\<close>, and the heavy and light sequence are
  the two parts. The witness is the example of the specification: \<open>hlen = 10\<close>,
  separator \<open><cls>\<close>, 25 loss values, heavy loss \<open>loss[0:10]\<close> and light loss
  \<open>loss[11:25]\<close> of length 14.
\<close>

theorem chain_splitter_slices:
  assumes "separator r \<noteq> []"
    and "sequence r = h @ separator r @ l"
    and "\<not> sublist (separator r) (h @ butlast (separator r))"
    and "\<not> sublist (separator r) l"
  shows "\<exists>d. extract_row r = Inr d
      \<and> heavy_loss d = py_slice (loss r) 0 (length (cdr_mask_heavy r))
      \<and> heavy_pred d = py_slice (prediction r) 0 (length (cdr_mask_heavy r))
      \<and> light_loss d = py_slice (loss r)
            (length (cdr_mask_heavy r) + count_list (separator r) CHR ''<'') (length (loss r))
      \<and> light_pred d = py_slice (prediction r)
            (length (cdr_mask_heavy r) + count_list (separator r) CHR ''<'') (length (prediction r))
      \<and> length (light_loss d) =
            length (loss r) - (length (cdr_mask_heavy r) + count_list (separator r) CHR ''<'')
      \<and> (\<forall>i<length (heavy_loss d). heavy_loss d ! i = loss r ! i)
      \<and> (\<forall>i<length (light_loss d). light_loss d ! i =
            loss r ! (length (cdr_mask_heavy r) + count_list (separator r) CHR ''<'' + i))
      \<and> heavy_sequence d = h \<and> light_sequence d = l"
proof -
  have "split_from (separator r) [] (sequence r) = h # split_from (separator r) [] l"
    using split_from_first [OF assms(1,3), of "[]" l] assms(2) by simp
  with split_from_absent [OF assms(4), of "[]"]
  have "split_from (separator r) [] (sequence r) = h # l # []" by simp
  from extract_row_split [OF assms(1) this] show ?thesis
    by (simp add: py_slice_def)
qed

theorem chain_splitter_slices_witness:
  "separator example_row \<noteq> []
   \<and> sequence example_row = ''QVQLVESGGG'' @ separator example_row @ ''DIQMTQSPSSLSAS''
   \<and> length (cdr_mask_heavy example_row) = 10
   \<and> count_list (separator example_row) CHR ''<'' = 1
   \<and> length (loss example_row) = 25
   \<and> (\<exists>d. extract_row example_row = Inr d
        \<and> heavy_loss d = py_slice (loss example_row) 0 10
        \<and> light_loss d = py_slice (loss example_row) 11 25
        \<and> length (light_loss d) = 14
        \<and> heavy_sequence d = ''QVQLVESGGG'' \<and> light_sequence d = ''DIQMTQSPSSLSAS'')"
proof -
  have h1: "separator example_row \<noteq> []" by (simp add: example_row_def)
  have h2: "sequence example_row = ''QVQLVESGGG'' @ separator example_row @ ''DIQMTQSPSSLSAS''"
    by (simp add: example_row_def)
  have h3: "\<not> sublist (separator example_row) (''QVQLVESGGG'' @ butlast (separator example_row))"
    unfolding example_row_def by code_simp
  have h4: "\<not> sublist (separator example_row) ''DIQMTQSPSSLSAS''"
    unfolding example_row_def by code_simp
  have e: "length (cdr_mask_heavy example_row) = 10"
    "count_list (separator example_row) CHR ''<'' = 1" "length (loss example_row) = 25"
    by (simp_all add: example_row_def)
  from chain_splitter_slices [OF h1 h2 h3 h4] h1 h2 e show ?thesis by auto
qed

text \<open>
  Claim C8. When \<open>hlen + seplen\<close> is at least the length of the loss array (of the
  prediction array), the light-chain loss (prediction) slice is empty and the row is
  extracted without an error: slicing behind the end of an array is total. The row's
  sequence has to contain its separator, since the split of the sequence is the one
  step of the loop body that can raise.
\<close>

theorem light_slice_past_end:
  assumes "separator r \<noteq> []" and "sublist (separator r) (sequence r)"
  shows "\<exists>d. extract_row r = Inr d
      \<and> (length (loss r) \<le> length (cdr_mask_heavy r) + count_list (separator r) CHR ''<''
           \<longrightarrow> light_loss d = [])
      \<and> (length (prediction r) \<le> length (cdr_mask_heavy r) + count_list (separator r) CHR ''<''
           \<longrightarrow> light_pred d = [])"
proof -
  from split_from_present [OF assms, of "[]"]
  obtain h l tl2 where "split_from (separator r) [] (sequence r) = h # l # tl2"
    by (cases "split_from (separator r) [] (sequence r)" rule: remdups_adj.cases) auto
  from extract_row_split [OF assms(1) this] show ?thesis by simp
qed

theorem light_slice_past_end_witness:
  "separator short_row \<noteq> [] \<and> sublist (separator short_row) (sequence short_row)
   \<and> length (loss short_row) \<le> length (cdr_mask_heavy short_row) + count_list (separator short_row) CHR ''<''
   \<and> length (prediction short_row) \<le> length (cdr_mask_heavy short_row) + count_list (separator short_row) CHR ''<''
   \<and> (\<exists>d. extract_row short_row = Inr d \<and> light_loss d = [] \<and> light_pred d = [])"
proof -
  have h1: "separator short_row \<noteq> []" by (simp add: short_row_def)
  have h2: "sublist (separator short_row) (sequence short_row)"
    unfolding short_row_def by code_simp
  have h3: "length (loss short_row) \<le> length (cdr_mask_heavy short_row) + count_list (separator short_row) CHR ''<''"
    and h4: "length (prediction short_row) \<le> length (cdr_mask_heavy short_row) + count_list (separator short_row) CHR ''<''"
    by (simp_all add: short_row_def)
  from light_slice_past_end [OF h1 h2] h1 h2 h3 h4 show ?thesis by blast
qed

text \<open>
  Claim C10. A row whose sequence does not contain the separator raises
  \<open>IndexError\<close>, and so does \<open>_extract\<close> on every table in which the rows before it
  are extracted; no table that contains the row is returned. When the separator
  occurs a second time, the heavy and light sequence are the first two parts of the
  split and what follows the second separator is left out.
\<close>

theorem separator_absent_or_repeated:
  "(\<not> sublist (separator r) (sequence r) \<longrightarrow>
      extract_row r = Inl IndexError
      \<and> (\<forall>rows. r \<in> set rows \<longrightarrow> (\<exists>err. extract_rows rows = Inl err))
      \<and> (\<forall>pre ds post. extract_rows pre = Inr ds \<longrightarrow> extract_rows (pre @ r # post) = Inl IndexError))
   \<and> (separator q \<noteq> [] \<and> sequence q = a @ separator q @ b @ separator q @ c
      \<and> \<not> sublist (separator q) (a @ butlast (separator q))
      \<and> \<not> sublist (separator q) (b @ butlast (separator q)) \<longrightarrow>
      (\<exists>d. extract_row q = Inr d \<and> heavy_sequence d = a \<and> light_sequence d = b))"
proof (intro conjI impI)
  assume n: "\<not> sublist (separator r) (sequence r)"
  show "extract_row r = Inl IndexError" by (rule extract_row_absent [OF n])
  show "\<forall>rows. r \<in> set rows \<longrightarrow> (\<exists>err. extract_rows rows = Inl err)"
    using extract_rows_abort [OF _ extract_row_absent [OF n]] by blast
  show "\<forall>pre ds post. extract_rows pre = Inr ds \<longrightarrow> extract_rows (pre @ r # post) = Inl IndexError"
    using extract_rows_first_error [OF _ extract_row_absent [OF n]] by blast
next
  assume "separator q \<noteq> [] \<and> sequence q = a @ separator q @ b @ separator q @ c
      \<and> \<not> sublist (separator q) (a @ butlast (separator q))
      \<and> \<not> sublist (separator q) (b @ butlast (separator q))"
  then have s: "separator q \<noteq> []" and seq: "sequence q = a @ separator q @ b @ separator q @ c"
    and na: "\<not> sublist (separator q) (a @ butlast (separator q))"
    and nb: "\<not> sublist (separator q) (b @ butlast (separator q))" by simp_all
  have "split_from (separator q) [] (sequence q) =
          a # split_from (separator q) [] (b @ separator q @ c)"
    using split_from_first [OF s na, of "[]" "b @ separator q @ c"] seq by simp
  also have "split_from (separator q) [] (b @ separator q @ c) = b # split_from (separator q) [] c"
    using split_from_first [OF s nb, of "[]" c] by simp
  finally have "split_from (separator q) [] (sequence q) = a # b # split_from (separator q) [] c" .
  from extract_row_split [OF s this]
  show "\<exists>d. extract_row q = Inr d \<and> heavy_sequence d = a \<and> light_sequence d = b" by simp
qed

theorem separator_absent_or_repeated_witness:
  "\<not> sublist (separator unseparated_row) (sequence unseparated_row)
   \<and> extract_row unseparated_row = Inl IndexError
   \<and> extract_rows [example_row, unseparated_row, short_row] = Inl IndexError
   \<and> sequence repeated_row = ''QVQ'' @ separator repeated_row @ ''DIQ'' @ separator repeated_row @ ''EVK''
   \<and> (\<exists>d. extract_row repeated_row = Inr d \<and> heavy_sequence d = ''QVQ'' \<and> light_sequence d = ''DIQ'')"
proof -
  have n: "\<not> sublist (separator unseparated_row) (sequence unseparated_row)"
    unfolding unseparated_row_def by code_simp
  have pre: "extract_rows [example_row] = Inr [example_derived]"
    by (simp add: extract_example_row)
  have s: "separator repeated_row \<noteq> []" by (simp add: repeated_row_def)
  have seq: "sequence repeated_row = ''QVQ'' @ separator repeated_row @ ''DIQ'' @ separator repeated_row @ ''EVK''"
    by (simp add: repeated_row_def)
  have na: "\<not> sublist (separator repeated_row) (''QVQ'' @ butlast (separator repeated_row))"
    unfolding repeated_row_def by code_simp
  have nb: "\<not> sublist (separator repeated_row) (''DIQ'' @ butlast (separator repeated_row))"
    unfolding repeated_row_def by code_simp
  note t = separator_absent_or_repeated [of unseparated_row repeated_row "''QVQ''" "''DIQ''" "''EVK''"]
  from t n have a: "extract_row unseparated_row = Inl IndexError" by blast
  from t n pre have "extract_rows ([example_row] @ unseparated_row # [short_row]) = Inl IndexError"
    by blast
  then have b: "extract_rows [example_row, unseparated_row, short_row] = Inl IndexError" by simp
  from t s seq na nb
  have c: "\<exists>d. extract_row repeated_row = Inr d \<and> heavy_sequence d = ''QVQ'' \<and> light_sequence d = ''DIQ''"
    by blast
  from n a b seq c show ?thesis by blast
qed

section \<open>Properties of the region aggregator\<close>

lemma py_slice_append:
  assumes "lo \<le> mid" and "mid \<le> hi"
  shows "py_slice xs lo mid @ py_slice xs mid hi = py_slice xs lo hi"
proof -
  define ys where "ys = take hi xs"
  from assms(2) have t: "take mid xs = take mid ys" by (simp add: ys_def min_def)
  have "drop lo (take mid ys) @ drop mid ys = drop lo ys"
  proof (cases "mid \<le> length ys")
    case True
    with assms(1) have z: "lo - length (take mid ys) = 0" by simp
    have "drop lo ys = drop lo (take mid ys @ drop mid ys)" by simp
    also have "\<dots> = drop lo (take mid ys) @ drop (lo - length (take mid ys)) (drop mid ys)"
      by (rule drop_append)
    also have "\<dots> = drop lo (take mid ys) @ drop mid ys" by (simp only: z drop_0)
    finally show ?thesis by simp
  next
    case False
    then show ?thesis by simp
  qed
  with t show ?thesis by (simp add: py_slice_def ys_def)
qed

lemma tiles_concat_slices:
  "tiles lo hi segs \<Longrightarrow> concat (map (\<lambda>(s, e). py_slice xs s e) segs) = py_slice xs lo hi"
proof (induction segs arbitrary: lo)
  case Nil
  then show ?case by (simp add: py_slice_def)
next
  case (Cons p segs)
  obtain a b where p: "p = (a, b)" by (cases p)
  with Cons.prems have ab: "a = lo" "a < b" "tiles b hi segs" by auto
  from tiles_le [OF ab(3)] have "b \<le> hi" .
  with ab py_slice_append [of lo b hi xs]
  have "py_slice xs lo b @ py_slice xs b hi = py_slice xs lo hi" by simp
  with Cons.IH [OF ab(3)] p ab show ?case by simp
qed

lemma length_REGIONS: "length REGIONS = 7"
  by (simp add: REGIONS_def)

lemma mask_segments_Inr:
  assumes "mask_segments cdr_mask = Inr segs"
  shows "length segs = length (remdups_adj cdr_mask) \<and> tiles 0 (length cdr_mask) segs"
proof -
  from assms have "cdr_mask \<noteq> []" by (auto simp: mask_segments_def)
  from mask_segments_nonempty [OF this] assms show ?thesis by auto
qed

lemma chain_records_accepted:
  assumes "length (remdups_adj (cdr_mask_of r c)) = 7"
  shows "\<exists>segs. mask_segments (cdr_mask_of r c) = Inr segs \<and> length segs = 7
           \<and> tiles 0 (length (cdr_mask_of r c)) segs
           \<and> chain_records r c = Inr (map (region_entry r c) (zip REGIONS segs))"
proof -
  from assms have "cdr_mask_of r c \<noteq> []" by auto
  from mask_segments_nonempty [OF this] assms
  obtain segs where ms: "mask_segments (cdr_mask_of r c) = Inr segs"
    and len: "length segs = 7" and t: "tiles 0 (length (cdr_mask_of r c)) segs" by auto
  from ms len have "chain_records r c = Inr (map (region_entry r c) (zip REGIONS segs))"
    by (simp add: chain_records_def length_REGIONS)
  with ms len t show ?thesis by blast
qed

lemma chain_records_skipped:
  assumes "cdr_mask_of r c \<noteq> []" and "length (remdups_adj (cdr_mask_of r c)) \<noteq> 7"
  shows "chain_records r c = Inr []"
proof -
  from mask_segments_nonempty [OF assms(1)] assms(2)
  obtain segs where "mask_segments (cdr_mask_of r c) = Inr segs" and "length segs \<noteq> 7" by auto
  then show ?thesis by (simp add: chain_records_def length_REGIONS)
qed

lemma chain_records_empty_mask:
  "cdr_mask_of r c = [] \<Longrightarrow> chain_records r c = Inl IndexError"
  by (simp add: chain_records_def mask_segments_def)


lemma rec_loss_entry: "rec_loss (region_entry r c (reg, (s, e))) = py_slice (chain_loss r c) s e"
  by (simp add: region_entry_def Let_def)

lemma rec_accuracy_entry:
  "rec_accuracy (region_entry r c (reg, (s, e))) =
     accuracy (py_slice (chain_pred r c) s e) (py_slice (chain_sequence r c) s e)"
  by (simp add: region_entry_def Let_def)


lemma map_rec_loss:
  "length segs = length regs \<Longrightarrow>
   map rec_loss (map (region_entry r c) (zip regs segs)) =
     map (\<lambda>(s, e). py_slice (chain_loss r c) s e) segs"
  by (induction regs segs rule: list_induct2') (auto simp: rec_loss_entry)

text \<open>
  Claim C2, at a row without a light chain. The empty light-chain mask has no run,
  so the chain should be skipped, but \<open>cdr_mask[0]\<close> raises \<open>IndexError\<close> and
  \<open>_region_processing\<close> returns no records at all. Lemma \<open>chain_records_skipped\<close>
  above shows that every non-empty mask with a number of runs other than 7 is skipped
  without an error.
\<close>

theorem empty_mask_raises:
  "length (remdups_adj (cdr_mask_light empty_light_row)) = 0
   \<and> (\<exists>d. extract_rows [empty_light_row] = Inr [d]
         \<and> chain_records d Light = Inl IndexError
         \<and> region_processing [d] = Inl IndexError)"
proof -
  have "\<exists>d. extract_row empty_light_row = Inr d \<and> cdr_mask_light d = []
          \<and> cdr_mask_heavy d = ''0011223456''"
    by (simp add: extract_row_def py_split_def empty_light_row_def Let_def)
  then obtain d where d: "extract_row empty_light_row = Inr d" and m: "cdr_mask_light d = []"
    and h: "cdr_mask_heavy d = ''0011223456''" by blast
  from m have l: "chain_records d Light = Inl IndexError"
    by (simp add: chain_records_empty_mask)
  from h have "length (remdups_adj (cdr_mask_of d Heavy)) = 7" by simp
  from chain_records_accepted [OF this] obtain hs where "chain_records d Heavy = Inr hs" by blast
  with l have "region_processing [d] = Inl IndexError" by simp
  moreover from d have "extract_rows [empty_light_row] = Inr [d]" by simp
  moreover have "length (remdups_adj (cdr_mask_light empty_light_row)) = 0"
    by (simp add: empty_light_row_def)
  ultimately show ?thesis using l by blast
qed

text \<open>
  Claim C5. Round trip: for a chain whose mask has exactly 7 runs and whose loss
  array is as long as the mask, the chain is accepted with 7 records, and the
  concatenation of their \<open>loss\<close> slices, in the order of the regions, is the chain's
  loss array.
\<close>

theorem region_loss_roundtrip:
  assumes "length (remdups_adj (cdr_mask_of r c)) = 7"
    and "length (chain_loss r c) = length (cdr_mask_of r c)"
  shows "\<exists>recs. chain_records r c = Inr recs \<and> length recs = 7
           \<and> concat (map rec_loss recs) = chain_loss r c"
proof -
  from chain_records_accepted [OF assms(1)]
  obtain segs where len: "length segs = 7"
    and t: "tiles 0 (length (cdr_mask_of r c)) segs"
    and cr: "chain_records r c = Inr (map (region_entry r c) (zip REGIONS segs))" by blast
  let ?recs = "map (region_entry r c) (zip REGIONS segs)"
  have "map rec_loss ?recs = map (\<lambda>(s, e). py_slice (chain_loss r c) s e) segs"
    by (rule map_rec_loss) (simp add: len length_REGIONS)
  then have "concat (map rec_loss ?recs) = py_slice (chain_loss r c) 0 (length (cdr_mask_of r c))"
    using tiles_concat_slices [OF t] by simp
  also have "\<dots> = chain_loss r c" using assms(2) by (simp add: py_slice_def)
  finally have "concat (map rec_loss ?recs) = chain_loss r c" .
  moreover have "length ?recs = 7" by (simp add: len length_REGIONS)
  ultimately show ?thesis using cr by blast
qed

theorem region_loss_roundtrip_witness:
  "length (remdups_adj (cdr_mask_of example_derived Light)) = 7
   \<and> length (chain_loss example_derived Light) = length (cdr_mask_of example_derived Light)
   \<and> (\<exists>recs. chain_records example_derived Light = Inr recs \<and> length recs = 7
           \<and> concat (map rec_loss recs) = [1, 2, 3, 4, 5, 6, 7, 8, 7, 6, 5, 4, 3, 2])"
proof -
  have h1: "length (remdups_adj (cdr_mask_of example_derived Light)) = 7"
    by (simp add: example_derived_def)
  have h2: "length (chain_loss example_derived Light) = length (cdr_mask_of example_derived Light)"
    by (simp add: example_derived_def)
  have l: "chain_loss example_derived Light = [1, 2, 3, 4, 5, 6, 7, 8, 7, 6, 5, 4, 3, 2]"
    by (simp add: example_derived_def)
  from region_loss_roundtrip [OF h1 h2] h1 h2 l show ?thesis by simp
qed

lemma sum_list_indicator:
  "sum_list (map (\<lambda>(p, t). if p = t then 1 else 0) zs) = real (length (filter (\<lambda>(p, t). p = t) zs))"
  by (induction zs) auto

lemma accuracy_value:
  assumes "length ps = n" and "length ts = n" and "0 < n"
  shows "accuracy ps ts = Float (real (length (filter (\<lambda>(p, t). p = t) (zip ps ts))) / real n)"
proof -
  from assms have "zip ps ts \<noteq> []" by (cases ps; cases ts) auto
  moreover from assms have "length (zip ps ts) = n" by simp
  ultimately show ?thesis
    by (simp add: accuracy_def np_mean_def sum_list_indicator)
qed

lemma filter_all_match:
  assumes "length ps = n" and "length ts = n" and "\<forall>j<n. ps ! j = ts ! j"
  shows "length (filter (\<lambda>(p, t). p = t) (zip ps ts)) = n"
proof -
  from assms have "\<forall>z\<in>set (zip ps ts). (\<lambda>(p, t). p = t) z"
    by (auto simp: set_zip)
  then have "filter (\<lambda>(p, t). p = t) (zip ps ts) = zip ps ts"
    by (simp only: filter_True)
  with assms show ?thesis by simp
qed

lemma filter_none_match:
  assumes "length ps = n" and "length ts = n" and "\<forall>j<n. ps ! j \<noteq> ts ! j"
  shows "length (filter (\<lambda>(p, t). p = t) (zip ps ts)) = 0"
proof -
  from assms have "\<forall>z\<in>set (zip ps ts). \<not> (\<lambda>(p, t). p = t) z"
    by (auto simp: set_zip)
  then have "filter (\<lambda>(p, t). p = t) (zip ps ts) = []"
    by (simp only: filter_False)
  then show ?thesis by simp
qed

text \<open>
  Claim C6. For a region \<open>[s, e)\<close> of an accepted chain (the mask gives 7 segments)
  whose prediction and sequence slices are aligned with the region, each of length
  \<open>e - s\<close>, the accuracy of the record is the number of positions at which the
  predicted residue equals the true one, divided by the length of the slice. It lies
  between 0 and 1, is 1 when all positions match and 0 when none does.
\<close>

theorem region_accuracy:
  assumes "mask_segments (cdr_mask_of r c) = Inr segs" and "length segs = 7"
    and "k < 7" and "segs ! k = (s, e)"
    and "length (py_slice (chain_pred r c) s e) = e - s"
    and "length (py_slice (chain_sequence r c) s e) = e - s"
  shows "\<exists>recs acc. chain_records r c = Inr recs
           \<and> rec_accuracy (recs ! k) = Float acc
           \<and> acc = real (length (filter (\<lambda>(p, t). p = t)
                      (zip (py_slice (chain_pred r c) s e) (py_slice (chain_sequence r c) s e))))
                   / real (e - s)
           \<and> 0 \<le> acc \<and> acc \<le> 1
           \<and> ((\<forall>j<e - s. py_slice (chain_pred r c) s e ! j = py_slice (chain_sequence r c) s e ! j)
                \<longrightarrow> acc = 1)
           \<and> ((\<forall>j<e - s. py_slice (chain_pred r c) s e ! j \<noteq> py_slice (chain_sequence r c) s e ! j)
                \<longrightarrow> acc = 0)"
proof -
  let ?ps = "py_slice (chain_pred r c) s e"
  let ?ts = "py_slice (chain_sequence r c) s e"
  let ?cnt = "length (filter (\<lambda>(p, t). p = t) (zip ?ps ?ts))"
  let ?recs = "map (region_entry r c) (zip REGIONS segs)"
  from mask_segments_Inr [OF assms(1)] have t: "tiles 0 (length (cdr_mask_of r c)) segs" by simp
  from assms(2,3,4) have "(s, e) \<in> set segs" by (metis nth_mem)
  from tiles_nonempty [OF t this] have se: "s < e" by simp
  from assms(1,2) have cr: "chain_records r c = Inr ?recs"
    by (simp add: chain_records_def length_REGIONS)
  from assms(2,3) have "?recs ! k = region_entry r c (REGIONS ! k, segs ! k)"
    by (simp add: length_REGIONS)
  with assms(4) have "rec_accuracy (?recs ! k) = accuracy ?ps ?ts"
    by (simp add: rec_accuracy_entry)
  also from se have "\<dots> = Float (real ?cnt / real (e - s))"
    by (intro accuracy_value assms(5,6)) simp
  finally have acc: "rec_accuracy (?recs ! k) = Float (real ?cnt / real (e - s))" .
  have "?cnt \<le> length (zip ?ps ?ts)" by (rule length_filter_le)
  with assms(5,6) have le: "?cnt \<le> e - s" by simp
  with se have b: "0 \<le> real ?cnt / real (e - s)" "real ?cnt / real (e - s) \<le> 1"
    by simp_all
  have one: "(\<forall>j<e - s. ?ps ! j = ?ts ! j) \<longrightarrow> real ?cnt / real (e - s) = 1"
    using filter_all_match [OF assms(5,6)] se by simp
  have zero: "(\<forall>j<e - s. ?ps ! j \<noteq> ?ts ! j) \<longrightarrow> real ?cnt / real (e - s) = 0"
    using filter_none_match [OF assms(5,6)] by simp
  show ?thesis
  proof (intro exI conjI)
    show "chain_records r c = Inr ?recs" by (rule cr)
    show "rec_accuracy (?recs ! k) = Float (real ?cnt / real (e - s))" by (rule acc)
    show "real ?cnt / real (e - s) = real ?cnt / real (e - s)" by (rule refl)
    show "0 \<le> real ?cnt / real (e - s)" by (rule b(1))
    show "real ?cnt / real (e - s) \<le> 1" by (rule b(2))
    show "(\<forall>j<e - s. ?ps ! j = ?ts ! j) \<longrightarrow> real ?cnt / real (e - s) = 1" by (rule one)
    show "(\<forall>j<e - s. ?ps ! j \<noteq> ?ts ! j) \<longrightarrow> real ?cnt / real (e - s) = 0" by (rule zero)
  qed
qed

theorem region_accuracy_witness:
  "mask_segments (cdr_mask_of example_derived Heavy) =
       Inr [(0, 2), (2, 4), (4, 6), (6, 7), (7, 8), (8, 9), (9, 10)]
   \<and> py_slice (chain_pred example_derived Heavy) 0 2 = ''QV''
   \<and> py_slice (chain_sequence example_derived Heavy) 0 2 = ''QV''
   \<and> py_slice (chain_pred example_derived Heavy) 9 10 = ''A''
   \<and> py_slice (chain_sequence example_derived Heavy) 9 10 = ''G''
   \<and> (\<exists>recs. chain_records example_derived Heavy = Inr recs
         \<and> rec_accuracy (recs ! 0) = Float 1 \<and> rec_accuracy (recs ! 6) = Float 0)"
proof -
  let ?segs = "[(0, 2), (2, 4), (4, 6), (6, 7), (7, 8), (8, 9), (9, 10)] :: (nat \<times> nat) list"
  have ms: "mask_segments (cdr_mask_of example_derived Heavy) = Inr ?segs"
    by (simp add: example_derived_def mask_segments_def)
  have len: "length ?segs = 7" by simp
  have p0: "py_slice (chain_pred example_derived Heavy) 0 2 = ''QV''"
    and t0: "py_slice (chain_sequence example_derived Heavy) 0 2 = ''QV''"
    and p6: "py_slice (chain_pred example_derived Heavy) 9 10 = ''A''"
    and t6: "py_slice (chain_sequence example_derived Heavy) 9 10 = ''G''"
    by (simp_all add: example_derived_def py_slice_def)
  have k0: "(0::nat) < 7" and s0: "?segs ! 0 = (0, 2)" by simp_all
  have k6: "(6::nat) < 7" and s6: "?segs ! 6 = (9, 10)" by simp_all
  have a0: "length (py_slice (chain_pred example_derived Heavy) 0 2) = 2 - 0"
    "length (py_slice (chain_sequence example_derived Heavy) 0 2) = 2 - 0"
    using p0 t0 by simp_all
  have a6: "length (py_slice (chain_pred example_derived Heavy) 9 10) = 10 - 9"
    "length (py_slice (chain_sequence example_derived Heavy) 9 10) = 10 - 9"
    using p6 t6 by simp_all
  from region_accuracy [OF ms len k0 s0 a0]
  obtain recs acc where r0: "chain_records example_derived Heavy = Inr recs"
    and acc0: "rec_accuracy (recs ! 0) = Float acc"
    and one: "(\<forall>j<2 - 0. py_slice (chain_pred example_derived Heavy) 0 2 ! j =
                 py_slice (chain_sequence example_derived Heavy) 0 2 ! j) \<longrightarrow> acc = 1"
    by blast
  have "\<forall>j<2 - 0. py_slice (chain_pred example_derived Heavy) 0 2 ! j =
                 py_slice (chain_sequence example_derived Heavy) 0 2 ! j"
    using p0 t0 by simp
  with one have "acc = 1" by blast
  with acc0 have A: "rec_accuracy (recs ! 0) = Float 1" by simp
  from region_accuracy [OF ms len k6 s6 a6]
  obtain recs' acc' where r6: "chain_records example_derived Heavy = Inr recs'"
    and acc6: "rec_accuracy (recs' ! 6) = Float acc'"
    and zero: "(\<forall>j<10 - 9. py_slice (chain_pred example_derived Heavy) 9 10 ! j \<noteq>
                 py_slice (chain_sequence example_derived Heavy) 9 10 ! j) \<longrightarrow> acc' = 0"
    by blast
  have "\<forall>j<10 - 9. py_slice (chain_pred example_derived Heavy) 9 10 ! j \<noteq>
                 py_slice (chain_sequence example_derived Heavy) 9 10 ! j"
    using p6 t6 by simp
  with zero have "acc' = 0" by blast
  with acc6 r0 r6 have B: "rec_accuracy (recs ! 6) = Float 0" by simp
  from ms p0 t0 p6 t6 r0 A B show ?thesis by blast
qed



section \<open>Properties of the loader\<close>

text \<open>
  Claim C9. For a task other than \<open>mlm\<close> and \<open>classification\<close> the loader returns
  an error, and once the tokenizer is loaded this error is the \<open>ValueError\<close> whose
  message ends with the task. For the task \<open>mlm\<close> or \<open>classification\<close>, when the
  external loaders succeed, the result is the pair of the model and the tokenizer.
\<close>

theorem load_model_and_tokenizer_task:
  "(task \<noteq> ''mlm'' \<and> task \<noteq> ''classification'' \<longrightarrow>
      (\<exists>err. load_model_and_tokenizer tokenizer_from_pretrained mlm_from_pretrained
                classification_from_pretrained model_path task tokenizer_path kwargs = Inl err)
      \<and> (tokenizer_from_pretrained (path_or tokenizer_path model_path) = Inr tokenizer \<longrightarrow>
           load_model_and_tokenizer tokenizer_from_pretrained mlm_from_pretrained
             classification_from_pretrained model_path task tokenizer_path kwargs
           = Inl (ValueError (''Unsupported task: '' @ task))))
   \<and> (task = ''mlm''
      \<and> tokenizer_from_pretrained (path_or tokenizer_path model_path) = Inr tokenizer
      \<and> mlm_from_pretrained model_path kwargs = Inr mdl \<longrightarrow>
        load_model_and_tokenizer tokenizer_from_pretrained mlm_from_pretrained
          classification_from_pretrained model_path task tokenizer_path kwargs
        = Inr (mdl, tokenizer))
   \<and> (task = ''classification''
      \<and> tokenizer_from_pretrained (path_or tokenizer_path model_path) = Inr tokenizer
      \<and> classification_from_pretrained model_path kwargs = Inr mdl \<longrightarrow>
        load_model_and_tokenizer tokenizer_from_pretrained mlm_from_pretrained
          classification_from_pretrained model_path task tokenizer_path kwargs
        = Inr (mdl, tokenizer))"
  by (auto simp: load_model_and_tokenizer_def split: sum.splits)

theorem load_model_and_tokenizer_task_witness:
  "load_model_and_tokenizer (\<lambda>p. Inr (''tokenizer at '' @ p)) (\<lambda>p (kw::unit). Inr (''mlm model at '' @ p))
       (\<lambda>p kw. Inr (''classifier at '' @ p)) ''models/a'' ''regression'' None ()
     = Inl (ValueError ''Unsupported task: regression'')
   \<and> load_model_and_tokenizer (\<lambda>p. Inr (''tokenizer at '' @ p)) (\<lambda>p (kw::unit). Inr (''mlm model at '' @ p))
       (\<lambda>p kw. Inr (''classifier at '' @ p)) ''models/a'' ''mlm'' (Some ''tok/b'') ()
     = Inr (''mlm model at models/a'', ''tokenizer at tok/b'')
   \<and> load_model_and_tokenizer (\<lambda>p. Inr (''tokenizer at '' @ p)) (\<lambda>p (kw::unit). Inr (''mlm model at '' @ p))
       (\<lambda>p kw. Inr (''classifier at '' @ p)) ''models/a'' ''classification'' (Some []) ()
     = Inr (''classifier at models/a'', ''tokenizer at models/a'')"
proof -
  let ?tok = "\<lambda>p. Inr (''tokenizer at '' @ p) :: py_error + string"
  let ?mlm = "\<lambda>p (kw::unit). Inr (''mlm model at '' @ p) :: py_error + string"
  let ?cls = "\<lambda>p (kw::unit). Inr (''classifier at '' @ p) :: py_error + string"
  have n: "''regression'' \<noteq> ''mlm'' \<and> ''regression'' \<noteq> ''classification''" by simp
  have t1: "?tok (path_or None ''models/a'') = Inr ''tokenizer at models/a''"
    by (simp add: path_or_def)
  have t2: "?tok (path_or (Some ''tok/b'') ''models/a'') = Inr ''tokenizer at tok/b''"
    by (simp add: path_or_def)
  have t3: "?tok (path_or (Some []) ''models/a'') = Inr ''tokenizer at models/a''"
    by (simp add: path_or_def)
  have m2: "?mlm ''models/a'' () = Inr ''mlm model at models/a''" by simp
  have m3: "?cls ''models/a'' () = Inr ''classifier at models/a''" by simp
  from load_model_and_tokenizer_task
         [of "''regression''" ?tok ?mlm ?cls "''models/a''" None "()" "''tokenizer at models/a''"] n t1
  have a: "load_model_and_tokenizer ?tok ?mlm ?cls ''models/a'' ''regression'' None ()
     = Inl (ValueError ''Unsupported task: regression'')" by simp
  from load_model_and_tokenizer_task
         [of "''mlm''" ?tok ?mlm ?cls "''models/a''" "Some ''tok/b''" "()" "''tokenizer at tok/b''"
             "''mlm model at models/a''"] t2 m2
  have b: "load_model_and_tokenizer ?tok ?mlm ?cls ''models/a'' ''mlm'' (Some ''tok/b'') ()
     = Inr (''mlm model at models/a'', ''tokenizer at tok/b'')" by simp
  from load_model_and_tokenizer_task
         [of "''classification''" ?tok ?mlm ?cls "''models/a''" "Some []" "()" "''tokenizer at models/a''"
             "''classifier at models/a''"] t3 m3
  have c: "load_model_and_tokenizer ?tok ?mlm ?cls ''models/a'' ''classification'' (Some []) ()
     = Inr (''classifier at models/a'', ''tokenizer at models/a'')" by simp
  from a b c show ?thesis by blast
qed

end
